theory Spec2Isabelle
  imports Main
begin

section \<open>The file mover service (src/service.ts)\<close>

text \<open>
  The service watches a source directory and moves every newly detected file into a
  destination directory. Everything it does is an effect on the outside world: a log
  line, a call of the move primitive \<^verbatim>\<open>fs.move\<close>, a timer. The model makes each effect a
  value: a function returns the list of effects it performed, in order, together with
  the world it leaves and the way its promise settles.
\<close>

subsection \<open>Errors, log lines and effects\<close>

text \<open>
  A thrown value as the catch blocks read it: \<^verbatim>\<open>(error as any).code\<close>, which an error that
  is not a system error does not have, and \<^verbatim>\<open>(error as any).message\<close>.
\<close>

record fs_error =
  code :: "string option"
  message :: string

text \<open>The three severities the logger is called with.\<close>

datatype level = Info | Warn | Error

text \<open>
  \<open>Log\<close> is a call of \<^verbatim>\<open>logger.info\<close>, \<^verbatim>\<open>logger.warn\<close> or \<^verbatim>\<open>logger.error\<close>; \<open>FsMove s d ov\<close> is
  a call \<^verbatim>\<open>fs.move(s, d, { overwrite: ov })\<close>; \<open>Sleep ms\<close> is an awaited
  \<^verbatim>\<open>setTimeout(resolve, ms)\<close>.
\<close>

datatype effect =
  Log level string
| FsMove string string bool
| Sleep nat

text \<open>How an awaited promise settles.\<close>

datatype 'a settled = Resolved 'a | Rejected fs_error

text \<open>
  The move primitive is a parameter of the model: called with source, destination and
  the overwrite option on a world \<open>'w\<close>, it either succeeds (\<open>Inr ()\<close>) or throws
  (\<open>Inl error\<close>), and leaves a world.
\<close>

type_synonym 'w move_primitive = "string \<Rightarrow> string \<Rightarrow> bool \<Rightarrow> 'w \<Rightarrow> (fs_error + unit) \<times> 'w"

subsection \<open>Rendering numbers in template strings\<close>

text \<open>
  \<^verbatim>\<open>${retries}\<close> renders the retry count in decimal. The count is an integer: the only
  callers pass the default 3 and \<^verbatim>\<open>retries - 1\<close>.
\<close>

fun show_nat :: "nat \<Rightarrow> string" where
  "show_nat n =
     (if n < 10 then [''0123456789'' ! n]
      else show_nat (n div 10) @ [''0123456789'' ! (n mod 10)])"

definition show_int :: "int \<Rightarrow> string" where
  "show_int i = (if i < 0 then ''-'' @ show_nat (nat (- i)) else show_nat (nat i))"

subsection \<open>moveFile\<close>

text \<open>The four log messages of \<^verbatim>\<open>moveFile\<close>, as its template strings build them.\<close>

definition attempting_msg :: "string \<Rightarrow> string \<Rightarrow> string" where
  "attempting_msg srcPath destPath =
     ''Attempting to move file from '' @ srcPath @ '' to '' @ destPath"

definition moved_msg :: "string \<Rightarrow> string \<Rightarrow> string" where
  "moved_msg srcPath destPath =
     ''File moved successfully from '' @ srcPath @ '' to '' @ destPath"

definition retrying_msg :: "int \<Rightarrow> string" where
  "retrying_msg retries =
     ''File is in use. Retrying... ('' @ show_int retries @ '' retries left)''"

definition failed_msg :: "fs_error \<Rightarrow> string" where
  "failed_msg error = ''Error moving file: '' @ message error"

text \<open>
  \<^verbatim>\<open>moveFile(srcPath, destPath, retries)\<close>. The \<^verbatim>\<open>try\<close> block logs, awaits the move and
  logs again; the \<^verbatim>\<open>catch\<close> block retries after one second when \<^verbatim>\<open>retries > 0\<close> and the
  error's code is \<^verbatim>\<open>'EBUSY'\<close>, and logs the error otherwise. The awaited recursive call
  settles the promise of the caller, so its settlement is passed on as it is.
\<close>

function moveFile ::
  "'w move_primitive \<Rightarrow> string \<Rightarrow> string \<Rightarrow> int \<Rightarrow> 'w \<Rightarrow> effect list \<times> 'w \<times> unit settled"
where
  "moveFile mv srcPath destPath retries w =
     (case mv srcPath destPath True w of
        (Inr u, w') \<Rightarrow>
          ([Log Info (attempting_msg srcPath destPath),
            FsMove srcPath destPath True,
            Log Info (moved_msg srcPath destPath)], w', Resolved ())
      | (Inl error, w') \<Rightarrow>
          if retries > 0 \<and> code error = Some ''EBUSY'' then
            (case moveFile mv srcPath destPath (retries - 1) w' of
               (effects, w'', s) \<Rightarrow>
                 ([Log Info (attempting_msg srcPath destPath),
                   FsMove srcPath destPath True,
                   Log Warn (retrying_msg retries),
                   Sleep 1000] @ effects, w'', s))
          else
            ([Log Info (attempting_msg srcPath destPath),
              FsMove srcPath destPath True,
              Log Error (failed_msg error)], w', Resolved ()))"
  by pat_completeness auto
termination
  by (relation "measure (\<lambda>(mv, srcPath, destPath, retries, w). nat retries)") auto

text \<open>The default parameter: \<^verbatim>\<open>retries = 3\<close>.\<close>

definition moveFile_default ::
  "'w move_primitive \<Rightarrow> string \<Rightarrow> string \<Rightarrow> 'w \<Rightarrow> effect list \<times> 'w \<times> unit settled"
where
  "moveFile_default mv srcPath destPath w = moveFile mv srcPath destPath 3 w"

text \<open>The three components of a run of \<^verbatim>\<open>moveFile\<close>.\<close>

definition effects_of :: "effect list \<times> 'w \<times> unit settled \<Rightarrow> effect list" where
  "effects_of run = fst run"

definition world_of :: "effect list \<times> 'w \<times> unit settled \<Rightarrow> 'w" where
  "world_of run = fst (snd run)"

definition settlement_of :: "effect list \<times> 'w \<times> unit settled \<Rightarrow> unit settled" where
  "settlement_of run = snd (snd run)"

text \<open>Counting the move attempts and the log lines of one severity in a list of effects.\<close>

fun is_attempt :: "effect \<Rightarrow> bool" where
  "is_attempt (FsMove s d ov) = True"
| "is_attempt e = False"

fun is_line :: "level \<Rightarrow> effect \<Rightarrow> bool" where
  "is_line lv (Log l m) = (l = lv)"
| "is_line lv e = False"

definition attempts :: "effect list \<Rightarrow> nat" where
  "attempts effects = length (filter is_attempt effects)"

definition log_lines :: "level \<Rightarrow> effect list \<Rightarrow> nat" where
  "log_lines lv effects = length (filter (is_line lv) effects)"

text \<open>
  What the first \<open>n\<close> attempts of a move return when they are made one after the other,
  each on the world the one before has left, and the world they leave.
\<close>

fun attempt_outcomes ::
  "'w move_primitive \<Rightarrow> string \<Rightarrow> string \<Rightarrow> nat \<Rightarrow> 'w \<Rightarrow> (fs_error + unit) list"
where
  "attempt_outcomes mv srcPath destPath 0 w = []"
| "attempt_outcomes mv srcPath destPath (Suc n) w =
     fst (mv srcPath destPath True w)
       # attempt_outcomes mv srcPath destPath n (snd (mv srcPath destPath True w))"

fun world_after_attempts :: "'w move_primitive \<Rightarrow> string \<Rightarrow> string \<Rightarrow> nat \<Rightarrow> 'w \<Rightarrow> 'w" where
  "world_after_attempts mv srcPath destPath 0 w = w"
| "world_after_attempts mv srcPath destPath (Suc n) w =
     world_after_attempts mv srcPath destPath n (snd (mv srcPath destPath True w))"

text \<open>An attempt that threw an error with the code \<^verbatim>\<open>EBUSY\<close>.\<close>

fun is_busy :: "fs_error + unit \<Rightarrow> bool" where
  "is_busy (Inl error) = (code error = Some ''EBUSY'')"
| "is_busy (Inr u) = False"

text \<open>What the last attempt of a run returned: the run made as many attempts as its effects show.\<close>

definition last_attempt ::
  "'w move_primitive \<Rightarrow> string \<Rightarrow> string \<Rightarrow> int \<Rightarrow> 'w \<Rightarrow> fs_error + unit"
where
  "last_attempt mv srcPath destPath retries w =
     last (attempt_outcomes mv srcPath destPath
             (attempts (effects_of (moveFile mv srcPath destPath retries w))) w)"

text \<open>
  The specification speaks of a terminal outcome \<^verbatim>\<open>Success | Failure(reason)\<close>. The code has
  no such value; \<open>logged_outcome\<close> is the outcome as the last log line of a run tells it.
\<close>

datatype outcome = Success | Failure string

fun logged_outcome :: "effect list \<Rightarrow> outcome option" where
  "logged_outcome [] = None"
| "logged_outcome [Log Info m] = Some Success"
| "logged_outcome [Log Error m] = Some (Failure m)"
| "logged_outcome [e] = None"
| "logged_outcome (e # es) = logged_outcome es"

subsection \<open>A reference world for the move primitive\<close>

text \<open>
  Modelled from the spec: the move primitive \<^verbatim>\<open>fs.move\<close>, which is the move of the fs-extra
  library and not part of the sources. The specification (4.2, 8) describes it: one
  atomic move that overwrites an existing destination, fails while another process
  holds the file open, and leaves the source untouched when it fails. The reference
  world is a table of files (path to content) and the set of paths another process
  holds open. The primitive
  fails with \<^verbatim>\<open>ENOENT\<close> when the source is missing, with fs-extra's own error (it has no
  code) when the destination exists and the overwrite option is off, and with \<^verbatim>\<open>EBUSY\<close>
  when the source or the destination is held open; a failed move changes nothing.
\<close>

record world =
  files :: "string \<rightharpoonup> string"
  in_use :: "string set"

definition enoent_error :: "string \<Rightarrow> fs_error" where
  "enoent_error p =
     \<lparr>code = Some ''ENOENT'', message = ''ENOENT: no such file or directory, stat '' @ p\<rparr>"

definition dest_exists_error :: fs_error where
  "dest_exists_error = \<lparr>code = None, message = ''dest already exists.''\<rparr>"

definition ebusy_error :: "string \<Rightarrow> string \<Rightarrow> fs_error" where
  "ebusy_error s d =
     \<lparr>code = Some ''EBUSY'',
      message = ''EBUSY: resource busy or locked, rename '' @ s @ '' -> '' @ d\<rparr>"

definition fs_move :: "world move_primitive" where
  "fs_move s d overwrite w =
     (case files w s of
        None \<Rightarrow> (Inl (enoent_error s), w)
      | Some content \<Rightarrow>
          if \<not> overwrite \<and> files w d \<noteq> None then (Inl dest_exists_error, w)
          else if s \<in> in_use w \<or> d \<in> in_use w then (Inl (ebusy_error s d), w)
          else (Inr (), w\<lparr>files := ((files w)(s := None))(d \<mapsto> content)\<rparr>))"

subsection \<open>Paths\<close>

text \<open>
  \<^verbatim>\<open>path.basename\<close> and \<^verbatim>\<open>path.join\<close> of Node's path module, in its POSIX variant: the
  separator is the slash. \<^verbatim>\<open>basename\<close> drops trailing slashes and returns what follows the
  last slash that remains.
\<close>

definition path_basename :: "string \<Rightarrow> string" where
  "path_basename p =
     rev (takeWhile (\<lambda>c. c \<noteq> CHR ''/'') (dropWhile (\<lambda>c. c = CHR ''/'') (rev p)))"

text \<open>The segments of a path between its slashes, the empty ones included.\<close>

fun split_path :: "string \<Rightarrow> string list" where
  "split_path [] = [[]]"
| "split_path (c # cs) =
     (if c = CHR ''/'' then [] # split_path cs
      else (c # hd (split_path cs)) # tl (split_path cs))"

fun join_with_slash :: "string list \<Rightarrow> string" where
  "join_with_slash [] = []"
| "join_with_slash [seg] = seg"
| "join_with_slash (seg # segs) = seg @ ''/'' @ join_with_slash segs"

text \<open>
  \<^verbatim>\<open>normalizeString\<close> resolves the segments from left to right: an empty segment and
  \<^verbatim>\<open>.\<close> are dropped; \<^verbatim>\<open>..\<close> removes the segment before it, unless there is none or it
  is \<^verbatim>\<open>..\<close> itself, in which case it is kept when the path may climb above its root
  and dropped otherwise.
\<close>

definition normalize_step :: "bool \<Rightarrow> string list \<Rightarrow> string \<Rightarrow> string list" where
  "normalize_step allowAboveRoot res seg =
     (if seg = [] \<or> seg = ''.'' then res
      else if seg = ''..'' then
        (if res \<noteq> [] \<and> last res \<noteq> ''..'' then butlast res
         else if allowAboveRoot then res @ [''..''] else res)
      else res @ [seg])"

definition normalizeString :: "string \<Rightarrow> bool \<Rightarrow> string list" where
  "normalizeString path allowAboveRoot =
     foldl (normalize_step allowAboveRoot) [] (split_path path)"

definition isAbsolute :: "string \<Rightarrow> bool" where
  "isAbsolute path = (path \<noteq> [] \<and> hd path = CHR ''/'')"

definition path_normalize :: "string \<Rightarrow> string" where
  "path_normalize path =
     (if path = [] then ''.''
      else
        let trailingSeparator = (last path = CHR ''/'');
            p = join_with_slash (normalizeString path (\<not> isAbsolute path))
        in if p = [] then
             (if isAbsolute path then ''/'' else if trailingSeparator then ''./'' else ''.'')
           else (if isAbsolute path then ''/'' else []) @ p
                  @ (if trailingSeparator then ''/'' else []))"

text \<open>\<^verbatim>\<open>path.join(...args)\<close>: the arguments that are not empty, joined by slashes, normalized.\<close>

definition path_join :: "string list \<Rightarrow> string" where
  "path_join args =
     (let parts = filter (\<lambda>arg. arg \<noteq> []) args
      in if parts = [] then ''.'' else path_normalize (join_with_slash parts))"

subsection \<open>startWatching and its handlers\<close>

text \<open>The options \<^verbatim>\<open>startWatching\<close> passes to \<^verbatim>\<open>chokidar.watch\<close>.\<close>

record watch_options =
  persistent :: bool
  ignoreInitial :: bool
  usePolling :: bool
  interval :: nat

text \<open>
  A watcher as \<^verbatim>\<open>startWatching\<close> sets it up: the watched directory, the options, and the
  destination directory its \<^verbatim>\<open>add\<close> handler closes over. Its \<^verbatim>\<open>error\<close> handler closes over
  nothing.
\<close>

record watcher =
  target :: string
  options :: watch_options
  handler_destDir :: string

text \<open>What a watcher emits: \<^verbatim>\<open>add\<close> with a file path, \<^verbatim>\<open>error\<close> with an error.\<close>

datatype watcher_event = Add string | WatchError fs_error

text \<open>
  The process as the watcher code can change it: the lines given to the logger, the
  exit code once \<^verbatim>\<open>process.exit\<close> has been called, the watchers that are set up and not
  closed, and the calls of \<^verbatim>\<open>moveFile\<close> that were made without awaiting them, each with
  its source path, destination path and retry count. \<open>readable\<close> is the part of the
  file system a start-up check would look at: the directories that exist and can be
  read.
\<close>

record process =
  logged :: "(level \<times> string) list"
  exited :: "int option"
  watching :: "watcher list"
  dispatched :: "(string \<times> string \<times> int) list"
  readable :: "string set"

text \<open>The \<^verbatim>\<open>add\<close> handler: base name, destination path, one log line, one move.\<close>

definition on_add :: "string \<Rightarrow> string \<Rightarrow> process \<Rightarrow> process" where
  "on_add destDir filePath p =
     (let fileName = path_basename filePath;
          destPath = path_join [destDir, fileName]
      in p\<lparr>logged := logged p @ [(Info, ''Detected new file: '' @ fileName)],
            dispatched := dispatched p @ [(filePath, destPath, 3)]\<rparr>)"

text \<open>The \<^verbatim>\<open>error\<close> handler: one log line.\<close>

definition on_error :: "fs_error \<Rightarrow> process \<Rightarrow> process" where
  "on_error error p = p\<lparr>logged := logged p @ [(Error, ''Watcher error: '' @ message error)]\<rparr>"

definition startWatching_options :: watch_options where
  "startWatching_options =
     \<lparr>persistent = True, ignoreInitial = True, usePolling = True, interval = 1000\<rparr>"

text \<open>
  \<^verbatim>\<open>startWatching(srcDir, destDir)\<close>: sets the watcher up with its two handlers and logs
  that it watches. It reads nothing of the file system itself.
\<close>

definition startWatching :: "string \<Rightarrow> string \<Rightarrow> process \<Rightarrow> process" where
  "startWatching srcDir destDir p =
     p\<lparr>watching := watching p @
           [\<lparr>target = srcDir, options = startWatching_options, handler_destDir = destDir\<rparr>],
       logged := logged p @ [(Info, ''Watching directory: '' @ srcDir)]\<rparr>"

text \<open>
  An event of a watcher reaches its handler as long as the process runs and the watcher
  is not closed.
\<close>

definition deliver :: "watcher \<Rightarrow> process \<Rightarrow> watcher_event \<Rightarrow> process" where
  "deliver wt p ev =
     (if exited p = None \<and> wt \<in> set (watching p) then
        (case ev of
           Add filePath \<Rightarrow> on_add (handler_destDir wt) filePath p
         | WatchError error \<Rightarrow> on_error error p)
      else p)"

definition run_events :: "watcher \<Rightarrow> watcher_event list \<Rightarrow> process \<Rightarrow> process" where
  "run_events wt evs p = foldl (deliver wt) p evs"

subsection \<open>The watcher library\<close>

text \<open>
  Modelled from the spec: the directory watcher behind \<^verbatim>\<open>chokidar.watch\<close>, whose code is not
  part of the sources. The specification (4.1) describes it: it polls the directory at a
  fixed interval; files present when watching begins are not reported when the initial
  state is excluded; a file is reported when it appears; an observation error is
  surfaced and the watcher keeps observing. A poll sees either the listing of the file
  paths under the directory or an error.
\<close>

datatype poll_result = Listing "string list" | Unreadable fs_error

definition initial_events :: "watch_options \<Rightarrow> string list \<Rightarrow> watcher_event list" where
  "initial_events opts present =
     (if ignoreInitial opts then [] else map Add present)"

definition poll_events :: "string list \<Rightarrow> poll_result \<Rightarrow> watcher_event list" where
  "poll_events seen r =
     (case r of
        Listing now \<Rightarrow> map Add (filter (\<lambda>path. path \<notin> set seen) now)
      | Unreadable error \<Rightarrow> [WatchError error])"

definition seen_after :: "string list \<Rightarrow> poll_result \<Rightarrow> string list" where
  "seen_after seen r = (case r of Listing now \<Rightarrow> now | Unreadable error \<Rightarrow> seen)"

text \<open>
  The events of the polls, each with the time in milliseconds since the watch began:
  \<open>t\<close> is the time of the previous poll, \<open>seen\<close> the listing it saw.
\<close>

fun poll_loop :: "nat \<Rightarrow> nat \<Rightarrow> string list \<Rightarrow> poll_result list \<Rightarrow> (nat \<times> watcher_event) list" where
  "poll_loop iv t seen [] = []"
| "poll_loop iv t seen (r # rs) =
     map (Pair (t + iv)) (poll_events seen r) @ poll_loop iv (t + iv) (seen_after seen r) rs"

definition watcher_events ::
  "watch_options \<Rightarrow> string list \<Rightarrow> poll_result list \<Rightarrow> (nat \<times> watcher_event) list"
where
  "watcher_events opts present polls =
     map (Pair 0) (initial_events opts present) @ poll_loop (interval opts) 0 present polls"

text \<open>
  The listing the watcher compares poll \<open>k\<close> with (the polls count from 0): the listing of
  the last poll before it that was not an error, and the files present when watching
  began if there is none.
\<close>

definition seen_before :: "string list \<Rightarrow> poll_result list \<Rightarrow> nat \<Rightarrow> string list" where
  "seen_before present polls k = foldl seen_after present (take k polls)"

text \<open>The paths a list of events reports as added, in order.\<close>

fun added_paths :: "watcher_event list \<Rightarrow> string list" where
  "added_paths [] = []"
| "added_paths (Add path # evs) = path # added_paths evs"
| "added_paths (WatchError error # evs) = added_paths evs"

text \<open>
  The service from the moment it starts to watch: \<^verbatim>\<open>startWatching\<close> sets the watcher up,
  and the events the watcher emits under the options it was given reach the handlers.
\<close>

definition watch_service ::
  "string \<Rightarrow> string \<Rightarrow> string list \<Rightarrow> poll_result list \<Rightarrow> process \<Rightarrow> process"
where
  "watch_service srcDir destDir present polls p =
     (let p' = startWatching srcDir destDir p;
          wt = last (watching p')
      in run_events wt (map snd (watcher_events (options wt) present polls)) p')"

subsection \<open>Example worlds\<close>

text \<open>
  A file waits in the source directory and an older file of the same name lies in the
  destination directory; in the second world a producer still holds the source open; in
  the third there is no file at all.
\<close>

definition ready_world :: world where
  "ready_world = \<lparr>files = [''/in/a.txt'' \<mapsto> ''new'', ''/out/a.txt'' \<mapsto> ''old''], in_use = {}\<rparr>"

definition busy_world :: world where
  "busy_world =
     \<lparr>files = [''/in/a.txt'' \<mapsto> ''new'', ''/out/a.txt'' \<mapsto> ''old''], in_use = {''/in/a.txt''}\<rparr>"

definition empty_world :: world where
  "empty_world = \<lparr>files = Map.empty, in_use = {}\<rparr>"

text \<open>The error of a poll that finds the watched directory gone.\<close>

definition vanished_error :: fs_error where
  "vanished_error =
     \<lparr>code = Some ''ENOENT'', message = ''ENOENT: no such file or directory, scandir /in''\<rparr>"

text \<open>
  A watched directory that holds one file when watching begins; the first poll finds it
  unchanged, the second finds a new file beside the old one.
\<close>

definition present_at_start :: "string list" where
  "present_at_start = [''/in/old.txt'']"

definition two_polls :: "poll_result list" where
  "two_polls = [Listing [''/in/old.txt''], Listing [''/in/old.txt'', ''/in/new.txt'']]"

text \<open>A process that has just started: nothing logged, no watcher, no directory at all.\<close>

definition fresh_process :: process where
  "fresh_process =
     \<lparr>logged = [], exited = None, watching = [], dispatched = [], readable = {}\<rparr>"

section \<open>Properties of moveFile\<close>

declare moveFile.simps [simp del]

lemma moveFile_moved:
  "mv s d True w = (Inr u, w') \<Longrightarrow>
   moveFile mv s d r w =
     ([Log Info (attempting_msg s d), FsMove s d True, Log Info (moved_msg s d)], w', Resolved ())"
  by (simp add: moveFile.simps)

lemma moveFile_retry:
  "mv s d True w = (Inl e, w') \<Longrightarrow> 0 < r \<Longrightarrow> code e = Some ''EBUSY'' \<Longrightarrow>
   moveFile mv s d r w =
     ([Log Info (attempting_msg s d), FsMove s d True, Log Warn (retrying_msg r), Sleep 1000]
        @ effects_of (moveFile mv s d (r - 1) w'),
      world_of (moveFile mv s d (r - 1) w'),
      settlement_of (moveFile mv s d (r - 1) w'))"
  by (subst moveFile.simps)
     (simp add: effects_of_def world_of_def settlement_of_def split: prod.splits)

lemma moveFile_abandoned:
  "mv s d True w = (Inl e, w') \<Longrightarrow> \<not> (0 < r \<and> code e = Some ''EBUSY'') \<Longrightarrow>
   moveFile mv s d r w =
     ([Log Info (attempting_msg s d), FsMove s d True, Log Error (failed_msg e)], w', Resolved ())"
  by (subst moveFile.simps) auto

text \<open>One case analysis serves every property of a run: what the first attempt returns.\<close>

lemma moveFile_cases:
  obtains (moved) u w' where "mv s d True w = (Inr u, w')"
  | (retry) e w' where "mv s d True w = (Inl e, w')" "0 < r" "code e = Some ''EBUSY''"
  | (abandoned) e w' where "mv s d True w = (Inl e, w')" "\<not> (0 < r \<and> code e = Some ''EBUSY'')"
proof (cases "mv s d True w")
  case (Pair res w')
  then show ?thesis
    by (cases res) (use that in blast)+
qed

lemma projections [simp]:
  "effects_of (t, w, st) = t" "world_of (t, w, st) = w" "settlement_of (t, w, st) = st"
  by (simp_all add: effects_of_def world_of_def settlement_of_def)

lemma moveFile_settlement: "settlement_of (moveFile mv s d r w) = Resolved ()"
proof (induction mv s d r w rule: moveFile.induct)
  case (1 mv s d r w)
  show ?case
  proof (cases rule: moveFile_cases [where mv = mv and s = s and d = d and w = w and r = r])
    case (moved u w')
    then show ?thesis by (simp add: moveFile_moved)
  next
    case (retry e w')
    with "1.IH" [of "Inl e" w' e] show ?thesis by (simp add: moveFile_retry)
  next
    case (abandoned e w')
    then show ?thesis by (simp add: moveFile_abandoned)
  qed
qed

lemma attempts_simps [simp]:
  "attempts [] = 0"
  "attempts (Log l m # es) = attempts es"
  "attempts (Sleep n # es) = attempts es"
  "attempts (FsMove a b ov # es) = Suc (attempts es)"
  "attempts (xs @ ys) = attempts xs + attempts ys"
  by (simp_all add: attempts_def)

lemma log_lines_simps [simp]:
  "log_lines lv [] = 0"
  "log_lines lv (Log l m # es) = (if l = lv then Suc (log_lines lv es) else log_lines lv es)"
  "log_lines lv (Sleep n # es) = log_lines lv es"
  "log_lines lv (FsMove a b ov # es) = log_lines lv es"
  "log_lines lv (xs @ ys) = log_lines lv xs + log_lines lv ys"
  by (simp_all add: log_lines_def)

lemma moveFile_attempts_pos: "0 < attempts (effects_of (moveFile mv s d r w))"
  by (cases rule: moveFile_cases [where mv = mv and s = s and d = d and w = w and r = r])
     (simp_all add: moveFile_moved moveFile_retry moveFile_abandoned)

lemma moveFile_effects_nonempty: "effects_of (moveFile mv s d r w) \<noteq> []"
  using moveFile_attempts_pos [of mv s d r w] by auto

lemma attempt_outcomes_nonempty: "0 < n \<Longrightarrow> attempt_outcomes mv s d n w \<noteq> []"
  by (cases n) simp_all

text \<open>Every wait of a run lasts 1000 ms.\<close>

lemma moveFile_sleeps: "Sleep ms \<in> set (effects_of (moveFile mv s d r w)) \<Longrightarrow> ms = 1000"
proof (induction mv s d r w rule: moveFile.induct)
  case (1 mv s d r w)
  show ?case
  proof (cases rule: moveFile_cases [where mv = mv and s = s and d = d and w = w and r = r])
    case (moved u w')
    with "1.prems" show ?thesis by (simp add: moveFile_moved)
  next
    case (retry e w')
    note IH = "1.IH" [of "Inl e" w' e, OF retry(1) [symmetric] refl conjI [OF retry(2) retry(3)]]
    have step: "moveFile mv s d r w =
        ([Log Info (attempting_msg s d), FsMove s d True, Log Warn (retrying_msg r), Sleep 1000]
           @ effects_of (moveFile mv s d (r - 1) w'),
         world_of (moveFile mv s d (r - 1) w'),
         settlement_of (moveFile mv s d (r - 1) w'))"
      using retry by (simp add: moveFile_retry)
    from "1.prems" IH show ?thesis unfolding step by auto
  next
    case (abandoned e w')
    with "1.prems" show ?thesis by (simp add: moveFile_abandoned)
  qed
qed

text \<open>
  C1. When an attempt throws, \<^verbatim>\<open>moveFile\<close> retries exactly when retries are left and the
  error's code is \<^verbatim>\<open>EBUSY\<close>: it then logs one warn line, waits 1000 ms, and runs again
  with the retry count decremented by one. With any other error, or with no retry left,
  it logs the error and makes no further attempt. So a run makes more than one attempt
  exactly when its first attempt throws a busy error while retries are left; and every
  wait of the run, at whatever retry, lasts 1000 ms.
\<close>

theorem moveFile_retries_exactly_on_busy:
  assumes "mv srcPath destPath True w = (Inl error, w')"
  shows "moveFile mv srcPath destPath retries w =
           (if 0 < retries \<and> code error = Some ''EBUSY'' then
              ([Log Info (attempting_msg srcPath destPath), FsMove srcPath destPath True,
                Log Warn (retrying_msg retries), Sleep 1000]
                 @ effects_of (moveFile mv srcPath destPath (retries - 1) w'),
               world_of (moveFile mv srcPath destPath (retries - 1) w'),
               settlement_of (moveFile mv srcPath destPath (retries - 1) w'))
            else
              ([Log Info (attempting_msg srcPath destPath), FsMove srcPath destPath True,
                Log Error (failed_msg error)], w', Resolved ()))
         \<and> (1 < attempts (effects_of (moveFile mv srcPath destPath retries w)))
             = (0 < retries \<and> code error = Some ''EBUSY'')
         \<and> (\<forall>ms. Sleep ms \<in> set (effects_of (moveFile mv srcPath destPath retries w))
                \<longrightarrow> ms = 1000)"
proof (cases "0 < retries \<and> code error = Some ''EBUSY''")
  case True
  with assms have step: "moveFile mv srcPath destPath retries w =
      ([Log Info (attempting_msg srcPath destPath), FsMove srcPath destPath True,
        Log Warn (retrying_msg retries), Sleep 1000]
         @ effects_of (moveFile mv srcPath destPath (retries - 1) w'),
       world_of (moveFile mv srcPath destPath (retries - 1) w'),
       settlement_of (moveFile mv srcPath destPath (retries - 1) w'))"
    by (simp add: moveFile_retry)
  have "0 < attempts (effects_of (moveFile mv srcPath destPath (retries - 1) w'))"
    by (rule moveFile_attempts_pos)
  with True step moveFile_sleeps [of _ mv srcPath destPath "retries - 1" w']
  show ?thesis by auto
next
  case False
  with assms have "moveFile mv srcPath destPath retries w =
      ([Log Info (attempting_msg srcPath destPath), FsMove srcPath destPath True,
        Log Error (failed_msg error)], w', Resolved ())"
    by (rule moveFile_abandoned)
  with False show ?thesis by simp
qed

lemma fs_move_busy_world:
  "fs_move ''/in/a.txt'' ''/out/a.txt'' True busy_world =
     (Inl (ebusy_error ''/in/a.txt'' ''/out/a.txt''), busy_world)"
  by (simp add: fs_move_def busy_world_def)

lemma code_ebusy [simp]: "code (ebusy_error s d) = Some ''EBUSY''"
  by (simp add: ebusy_error_def)

text \<open>The witness: a producer holds the source open, three retries are left.\<close>

theorem moveFile_retries_exactly_on_busy_witness:
  "fs_move ''/in/a.txt'' ''/out/a.txt'' True busy_world =
     (Inl (ebusy_error ''/in/a.txt'' ''/out/a.txt''), busy_world)
   \<and> moveFile fs_move ''/in/a.txt'' ''/out/a.txt'' 3 busy_world =
       ([Log Info (attempting_msg ''/in/a.txt'' ''/out/a.txt''),
         FsMove ''/in/a.txt'' ''/out/a.txt'' True,
         Log Warn (retrying_msg 3), Sleep 1000]
          @ effects_of (moveFile fs_move ''/in/a.txt'' ''/out/a.txt'' 2 busy_world),
        world_of (moveFile fs_move ''/in/a.txt'' ''/out/a.txt'' 2 busy_world),
        settlement_of (moveFile fs_move ''/in/a.txt'' ''/out/a.txt'' 2 busy_world))
   \<and> 1 < attempts (effects_of (moveFile fs_move ''/in/a.txt'' ''/out/a.txt'' 3 busy_world))"
proof -
  note busy = fs_move_busy_world
  note run = moveFile_retries_exactly_on_busy
          [where mv = fs_move and srcPath = "''/in/a.txt''" and destPath = "''/out/a.txt''"
             and w = busy_world and w' = busy_world and retries = 3
             and error = "ebusy_error ''/in/a.txt'' ''/out/a.txt''", OF busy]
  from run [THEN conjunct1] have first: "moveFile fs_move ''/in/a.txt'' ''/out/a.txt'' 3 busy_world =
       ([Log Info (attempting_msg ''/in/a.txt'' ''/out/a.txt''),
         FsMove ''/in/a.txt'' ''/out/a.txt'' True,
         Log Warn (retrying_msg 3), Sleep 1000]
          @ effects_of (moveFile fs_move ''/in/a.txt'' ''/out/a.txt'' 2 busy_world),
        world_of (moveFile fs_move ''/in/a.txt'' ''/out/a.txt'' 2 busy_world),
        settlement_of (moveFile fs_move ''/in/a.txt'' ''/out/a.txt'' 2 busy_world))"
    by simp
  from run [THEN conjunct2, THEN conjunct1]
  have "1 < attempts (effects_of (moveFile fs_move ''/in/a.txt'' ''/out/a.txt'' 3 busy_world))"
    by simp
  with busy first show ?thesis by blast
qed

text \<open>
  C2. When the first attempt throws an error whose code is not \<^verbatim>\<open>EBUSY\<close> (a missing code
  included), \<^verbatim>\<open>moveFile\<close> gives up at once, whatever the retry count: the run is the
  attempt and one error line, with no warn line and no second attempt, and the promise
  resolves, so nothing reaches the caller but the log.
\<close>

theorem moveFile_abandons_on_other_error:
  assumes "mv srcPath destPath True w = (Inl error, w')"
    and "code error \<noteq> Some ''EBUSY''"
  shows "moveFile mv srcPath destPath retries w =
           ([Log Info (attempting_msg srcPath destPath), FsMove srcPath destPath True,
             Log Error (failed_msg error)], w', Resolved ())
         \<and> attempts (effects_of (moveFile mv srcPath destPath retries w)) = 1
         \<and> log_lines Error (effects_of (moveFile mv srcPath destPath retries w)) = 1
         \<and> log_lines Warn (effects_of (moveFile mv srcPath destPath retries w)) = 0"
proof -
  from assms have "moveFile mv srcPath destPath retries w =
      ([Log Info (attempting_msg srcPath destPath), FsMove srcPath destPath True,
        Log Error (failed_msg error)], w', Resolved ())"
    by (simp add: moveFile_abandoned)
  then show ?thesis by simp
qed

lemma fs_move_empty_world:
  "fs_move ''/in/a.txt'' ''/out/a.txt'' True empty_world =
     (Inl (enoent_error ''/in/a.txt''), empty_world)"
  by (simp add: fs_move_def empty_world_def)

text \<open>The witness: the source file does not exist, and the primitive throws \<^verbatim>\<open>ENOENT\<close>.\<close>

theorem moveFile_abandons_on_other_error_witness:
  "fs_move ''/in/a.txt'' ''/out/a.txt'' True empty_world =
     (Inl (enoent_error ''/in/a.txt''), empty_world)
   \<and> code (enoent_error ''/in/a.txt'') \<noteq> Some ''EBUSY''
   \<and> moveFile fs_move ''/in/a.txt'' ''/out/a.txt'' 3 empty_world =
       ([Log Info (attempting_msg ''/in/a.txt'' ''/out/a.txt''),
         FsMove ''/in/a.txt'' ''/out/a.txt'' True,
         Log Error (failed_msg (enoent_error ''/in/a.txt''))], empty_world, Resolved ())
   \<and> attempts (effects_of (moveFile fs_move ''/in/a.txt'' ''/out/a.txt'' 3 empty_world)) = 1
   \<and> log_lines Error (effects_of (moveFile fs_move ''/in/a.txt'' ''/out/a.txt'' 3 empty_world)) = 1
   \<and> log_lines Warn (effects_of (moveFile fs_move ''/in/a.txt'' ''/out/a.txt'' 3 empty_world)) = 0"
proof -
  have other: "code (enoent_error ''/in/a.txt'') \<noteq> Some ''EBUSY''"
    by (simp add: enoent_error_def)
  from moveFile_abandons_on_other_error
         [where mv = fs_move and srcPath = "''/in/a.txt''" and destPath = "''/out/a.txt''"
            and w = empty_world and w' = empty_world and retries = 3
            and error = "enoent_error ''/in/a.txt''", OF fs_move_empty_world other]
    fs_move_empty_world other
  show ?thesis by blast
qed

text \<open>
  A move whose first \<open>n + 1\<close> attempts are all busy, run with \<open>n\<close> retries: every attempt
  is made, and the last one ends the run.
\<close>

lemma moveFile_all_busy:
  "list_all is_busy (attempt_outcomes mv s d (Suc n) w) \<Longrightarrow>
     attempts (effects_of (moveFile mv s d (int n) w)) = Suc n
   \<and> log_lines Warn (effects_of (moveFile mv s d (int n) w)) = n
   \<and> log_lines Error (effects_of (moveFile mv s d (int n) w)) = 1
   \<and> (\<exists>e. last (attempt_outcomes mv s d (Suc n) w) = Inl e
          \<and> last (effects_of (moveFile mv s d (int n) w)) = Log Error (failed_msg e))
   \<and> world_of (moveFile mv s d (int n) w) = world_after_attempts mv s d (Suc n) w
   \<and> settlement_of (moveFile mv s d (int n) w) = Resolved ()"
proof (induction n arbitrary: w)
  case 0
  then obtain e w' where first: "mv s d True w = (Inl e, w')"
    by (cases "mv s d True w"; cases "fst (mv s d True w)") auto
  then have "moveFile mv s d 0 w =
      ([Log Info (attempting_msg s d), FsMove s d True, Log Error (failed_msg e)], w', Resolved ())"
    by (simp add: moveFile_abandoned)
  with first show ?case by (intro conjI exI [of _ e]) simp_all
next
  case (Suc n)
  then obtain e w' where first: "mv s d True w = (Inl e, w')" and busy: "code e = Some ''EBUSY''"
    by (cases "mv s d True w"; cases "fst (mv s d True w)") auto
  with Suc.prems have "list_all is_busy (attempt_outcomes mv s d (Suc n) w')"
    by simp
  note IH = Suc.IH [OF this]
  have step: "moveFile mv s d (int (Suc n)) w =
     ([Log Info (attempting_msg s d), FsMove s d True, Log Warn (retrying_msg (int (Suc n))),
       Sleep 1000] @ effects_of (moveFile mv s d (int n) w'),
      world_of (moveFile mv s d (int n) w'),
      settlement_of (moveFile mv s d (int n) w'))"
    using first busy moveFile_retry [where mv = mv and s = s and d = d and w = w and e = e
        and w' = w' and r = "int (Suc n)"]
    by simp
  have ne: "effects_of (moveFile mv s d (int n) w') \<noteq> []"
    by (rule moveFile_effects_nonempty)
  from IH obtain e' where e': "last (attempt_outcomes mv s d (Suc n) w') = Inl e'"
    "last (effects_of (moveFile mv s d (int n) w')) = Log Error (failed_msg e')"
    by blast
  from IH ne first e' show ?case
    unfolding step by (intro conjI exI [of _ e']) simp_all
qed

text \<open>If a failed attempt changes nothing, failed attempts leave the world as it was.\<close>

lemma world_after_failed_attempts:
  assumes "\<forall>w1 w2 e. mv s d True w1 = (Inl e, w2) \<longrightarrow> w2 = w1"
  shows "list_all is_busy (attempt_outcomes mv s d n w) \<Longrightarrow> world_after_attempts mv s d n w = w"
proof (induction n arbitrary: w)
  case 0
  then show ?case by simp
next
  case (Suc n)
  then obtain e w' where first: "mv s d True w = (Inl e, w')"
    by (cases "mv s d True w"; cases "fst (mv s d True w)") auto
  with assms have "w' = w" by blast
  with Suc first show ?case by simp
qed

text \<open>
  C3. With the default retry count 3, when each of the four attempts throws a busy
  error, \<^verbatim>\<open>moveFile\<close> makes exactly these four attempts (3 + 1), logs three warn lines and
  one error line, which is its last effect and carries the message of the fourth
  error, and stops: the promise resolves. It does nothing to the world besides the four
  failed attempts; so when a failed attempt of the primitive moves nothing, the world,
  and the source file in it, is as it was.
\<close>

theorem moveFile_default_always_busy:
  assumes "list_all is_busy (attempt_outcomes mv srcPath destPath 4 w)"
  shows "attempts (effects_of (moveFile_default mv srcPath destPath w)) = 3 + 1
       \<and> log_lines Warn (effects_of (moveFile_default mv srcPath destPath w)) = 3
       \<and> log_lines Error (effects_of (moveFile_default mv srcPath destPath w)) = 1
       \<and> (\<exists>error. last (attempt_outcomes mv srcPath destPath 4 w) = Inl error
             \<and> last (effects_of (moveFile_default mv srcPath destPath w))
                   = Log Error (failed_msg error))
       \<and> settlement_of (moveFile_default mv srcPath destPath w) = Resolved ()
       \<and> world_of (moveFile_default mv srcPath destPath w)
           = world_after_attempts mv srcPath destPath 4 w
       \<and> ((\<forall>w1 w2 error. mv srcPath destPath True w1 = (Inl error, w2) \<longrightarrow> w2 = w1)
            \<longrightarrow> world_of (moveFile_default mv srcPath destPath w) = w)"
proof -
  have four: "(4::nat) = Suc 3" by simp
  from assms have busy: "list_all is_busy (attempt_outcomes mv srcPath destPath (Suc 3) w)"
    by (simp only: four)
  note run = moveFile_all_busy [where mv = mv and s = srcPath and d = destPath and n = 3 and w = w,
      OF busy]
  have "(\<forall>w1 w2 error. mv srcPath destPath True w1 = (Inl error, w2) \<longrightarrow> w2 = w1)
      \<longrightarrow> world_after_attempts mv srcPath destPath (Suc 3) w = w"
    using world_after_failed_attempts [where mv = mv and s = srcPath and d = destPath
        and n = "Suc 3" and w = w] busy
    by blast
  with run show ?thesis
    by (simp only: moveFile_default_def four) simp
qed

lemma fs_move_failure_unchanged: "fs_move s d ov w = (Inl e, w') \<Longrightarrow> w' = w"
  by (auto simp add: fs_move_def split: option.splits if_splits)

text \<open>The witness: in the reference world a producer holds the source open; both files stay.\<close>

theorem moveFile_default_always_busy_witness:
  "list_all is_busy (attempt_outcomes fs_move ''/in/a.txt'' ''/out/a.txt'' 4 busy_world)
   \<and> attempts (effects_of (moveFile_default fs_move ''/in/a.txt'' ''/out/a.txt'' busy_world)) = 4
   \<and> log_lines Warn (effects_of (moveFile_default fs_move ''/in/a.txt'' ''/out/a.txt'' busy_world)) = 3
   \<and> log_lines Error (effects_of (moveFile_default fs_move ''/in/a.txt'' ''/out/a.txt'' busy_world)) = 1
   \<and> files (world_of (moveFile_default fs_move ''/in/a.txt'' ''/out/a.txt'' busy_world)) ''/in/a.txt''
       = Some ''new''
   \<and> files (world_of (moveFile_default fs_move ''/in/a.txt'' ''/out/a.txt'' busy_world)) ''/out/a.txt''
       = Some ''old''"
proof -
  have busy: "list_all is_busy (attempt_outcomes fs_move ''/in/a.txt'' ''/out/a.txt'' 4 busy_world)"
    by (simp add: numeral_eq_Suc fs_move_busy_world)
  have atomic: "\<forall>w1 w2 error.
      fs_move ''/in/a.txt'' ''/out/a.txt'' True w1 = (Inl error, w2) \<longrightarrow> w2 = w1"
    using fs_move_failure_unchanged by blast
  note run = moveFile_default_always_busy
      [where mv = fs_move and srcPath = "''/in/a.txt''" and destPath = "''/out/a.txt''"
         and w = busy_world, OF busy]
  from run atomic
  have same: "world_of (moveFile_default fs_move ''/in/a.txt'' ''/out/a.txt'' busy_world) = busy_world"
    by blast
  have "files busy_world ''/in/a.txt'' = Some ''new''" "files busy_world ''/out/a.txt'' = Some ''old''"
    by (simp_all add: busy_world_def)
  with run busy same show ?thesis by simp
qed

text \<open>
  C9. The promise of \<^verbatim>\<open>moveFile\<close> resolves for every primitive, every pair of paths, every
  integer retry count and every world, that is, whatever the attempts return or throw:
  the function is total, and no run ends rejected. In particular the call the \<^verbatim>\<open>add\<close> handler
  makes without awaiting it, with the default retry count, resolves.
\<close>

theorem moveFile_always_resolves:
  "settlement_of (moveFile mv srcPath destPath retries w) = Resolved ()
   \<and> settlement_of
        (moveFile_default mv filePath (path_join [destDir, path_basename filePath]) w) = Resolved ()"
  by (simp add: moveFile_settlement moveFile_default_def)

text \<open>The witness: a negative retry count on a busy file, and the handler's call on a missing file.\<close>

theorem moveFile_always_resolves_witness:
  "settlement_of (moveFile fs_move ''/in/a.txt'' ''/out/a.txt'' (- 1) busy_world) = Resolved ()
   \<and> settlement_of
        (moveFile_default fs_move ''/in/sub/a.txt''
           (path_join [''/out'', path_basename ''/in/sub/a.txt'']) empty_world) = Resolved ()"
  using moveFile_always_resolves
          [where mv = fs_move and srcPath = "''/in/a.txt''" and destPath = "''/out/a.txt''"
             and retries = "- 1" and w = busy_world, THEN conjunct1]
        moveFile_always_resolves
          [where mv = fs_move and filePath = "''/in/sub/a.txt''" and destDir = "''/out''"
             and w = empty_world, THEN conjunct2]
  by blast

lemma logged_outcome_Cons [simp]: "es \<noteq> [] \<Longrightarrow> logged_outcome (e # es) = logged_outcome es"
  by (cases es; cases e) (auto split: level.splits)

lemma moved_msg_neq [simp]:
  "attempting_msg s d \<noteq> moved_msg s' d'" "moved_msg s' d' \<noteq> attempting_msg s d"
  by (simp_all add: attempting_msg_def moved_msg_def)

text \<open>
  The end of a run, told from what the attempts returned: every attempt but the last
  threw a busy error while a retry was left; the last attempt either returned, and the
  run ends with the info line of the move and has no error line, or threw an error
  that is not busy or found no retry left, and the run ends with its one error line,
  which carries the message of that error.
\<close>

lemma moveFile_terminal:
  "list_all is_busy
     (butlast (attempt_outcomes mv s d (attempts (effects_of (moveFile mv s d r w))) w))
   \<and> int (attempts (effects_of (moveFile mv s d r w))) \<le> max r 0 + 1
   \<and> world_of (moveFile mv s d r w)
       = world_after_attempts mv s d (attempts (effects_of (moveFile mv s d r w))) w
   \<and> (last_attempt mv s d r w = Inr ()
        \<and> logged_outcome (effects_of (moveFile mv s d r w)) = Some Success
        \<and> last (effects_of (moveFile mv s d r w)) = Log Info (moved_msg s d)
        \<and> log_lines Error (effects_of (moveFile mv s d r w)) = 0
      \<or> (\<exists>e. last_attempt mv s d r w = Inl e
            \<and> \<not> (int (attempts (effects_of (moveFile mv s d r w))) \<le> r
                  \<and> code e = Some ''EBUSY'')
            \<and> logged_outcome (effects_of (moveFile mv s d r w)) = Some (Failure (failed_msg e))
            \<and> last (effects_of (moveFile mv s d r w)) = Log Error (failed_msg e)
            \<and> log_lines Error (effects_of (moveFile mv s d r w)) = 1
            \<and> Log Info (moved_msg s d) \<notin> set (effects_of (moveFile mv s d r w))))"
proof (induction "nat r" arbitrary: r w rule: less_induct)
  case less
  show ?case
  proof (cases rule: moveFile_cases [where mv = mv and s = s and d = d and w = w and r = r])
    case (moved u w')
    then have run: "moveFile mv s d r w =
        ([Log Info (attempting_msg s d), FsMove s d True, Log Info (moved_msg s d)], w', Resolved ())"
      by (simp add: moveFile_moved)
    from moved show ?thesis by (simp add: last_attempt_def run)
  next
    case (retry e w')
    then have "nat (r - 1) < nat r" by simp
    note IH = less.hyps [OF this, of w']
    have step: "moveFile mv s d r w =
        ([Log Info (attempting_msg s d), FsMove s d True, Log Warn (retrying_msg r), Sleep 1000]
           @ effects_of (moveFile mv s d (r - 1) w'),
         world_of (moveFile mv s d (r - 1) w'),
         settlement_of (moveFile mv s d (r - 1) w'))"
      using retry by (simp add: moveFile_retry)
    have ne: "effects_of (moveFile mv s d (r - 1) w') \<noteq> []"
      by (rule moveFile_effects_nonempty)
    have outs: "attempt_outcomes mv s d (attempts (effects_of (moveFile mv s d (r - 1) w'))) w' \<noteq> []"
      using moveFile_attempts_pos by (rule attempt_outcomes_nonempty)
    have la: "last_attempt mv s d r w = last_attempt mv s d (r - 1) w'"
      using outs retry(1) unfolding last_attempt_def step by simp
    from IH show ?thesis
    proof (elim conjE disjE exE)
      assume "list_all is_busy
            (butlast (attempt_outcomes mv s d (attempts (effects_of (moveFile mv s d (r - 1) w'))) w'))"
        and "int (attempts (effects_of (moveFile mv s d (r - 1) w'))) \<le> max (r - 1) 0 + 1"
        and "world_of (moveFile mv s d (r - 1) w')
              = world_after_attempts mv s d (attempts (effects_of (moveFile mv s d (r - 1) w'))) w'"
        and "last_attempt mv s d (r - 1) w' = Inr ()"
        and "logged_outcome (effects_of (moveFile mv s d (r - 1) w')) = Some Success"
        and "last (effects_of (moveFile mv s d (r - 1) w')) = Log Info (moved_msg s d)"
        and "log_lines Error (effects_of (moveFile mv s d (r - 1) w')) = 0"
      with ne outs retry show ?thesis
        unfolding la unfolding step by simp
    next
      fix e'
      assume "list_all is_busy
            (butlast (attempt_outcomes mv s d (attempts (effects_of (moveFile mv s d (r - 1) w'))) w'))"
        and "int (attempts (effects_of (moveFile mv s d (r - 1) w'))) \<le> max (r - 1) 0 + 1"
        and "world_of (moveFile mv s d (r - 1) w')
              = world_after_attempts mv s d (attempts (effects_of (moveFile mv s d (r - 1) w'))) w'"
        and "last_attempt mv s d (r - 1) w' = Inl e'"
        and "\<not> (int (attempts (effects_of (moveFile mv s d (r - 1) w'))) \<le> r - 1
                \<and> code e' = Some ''EBUSY'')"
        and "logged_outcome (effects_of (moveFile mv s d (r - 1) w')) = Some (Failure (failed_msg e'))"
        and "last (effects_of (moveFile mv s d (r - 1) w')) = Log Error (failed_msg e')"
        and "log_lines Error (effects_of (moveFile mv s d (r - 1) w')) = 1"
        and "Log Info (moved_msg s d) \<notin> set (effects_of (moveFile mv s d (r - 1) w'))"
      with ne outs retry show ?thesis
        unfolding la unfolding step
        by (intro conjI disjI2 exI [of _ e']) auto
    qed
  next
    case (abandoned e w')
    then have run: "moveFile mv s d r w =
        ([Log Info (attempting_msg s d), FsMove s d True, Log Error (failed_msg e)], w', Resolved ())"
      by (simp add: moveFile_abandoned)
    from abandoned show ?thesis
      by (intro conjI disjI2 exI [of _ e]) (auto simp add: last_attempt_def run)
  qed
qed

text \<open>
  C7, as amended. \<^verbatim>\<open>moveFile\<close> returns no outcome: its promise resolves with no value in
  every case. The terminal outcome is told by the log alone, in the last effect of the
  run. On success, that is when the last attempt returned, the last effect is the info
  line of the successful move and the run has no error line. On failure, that is when
  the last attempt threw, the last effect is the one error line of the run, it carries
  the message of the error thrown, and the run has no line of a successful move. The
  attempts before the last all threw a busy error, and a run fails only on an error
  that is not busy or when no retry is left.
\<close>

theorem moveFile_outcome_only_logged:
  "settlement_of (moveFile mv srcPath destPath retries w) = Resolved ()
   \<and> list_all is_busy
        (butlast (attempt_outcomes mv srcPath destPath
                    (attempts (effects_of (moveFile mv srcPath destPath retries w))) w))
   \<and> int (attempts (effects_of (moveFile mv srcPath destPath retries w))) \<le> max retries 0 + 1
   \<and> (last_attempt mv srcPath destPath retries w = Inr ()
        \<and> logged_outcome (effects_of (moveFile mv srcPath destPath retries w)) = Some Success
        \<and> last (effects_of (moveFile mv srcPath destPath retries w))
              = Log Info (moved_msg srcPath destPath)
        \<and> log_lines Error (effects_of (moveFile mv srcPath destPath retries w)) = 0
      \<or> (\<exists>error.
            last_attempt mv srcPath destPath retries w = Inl error
          \<and> \<not> (int (attempts (effects_of (moveFile mv srcPath destPath retries w))) \<le> retries
                \<and> code error = Some ''EBUSY'')
          \<and> logged_outcome (effects_of (moveFile mv srcPath destPath retries w))
              = Some (Failure (failed_msg error))
          \<and> last (effects_of (moveFile mv srcPath destPath retries w))
              = Log Error (failed_msg error)
          \<and> log_lines Error (effects_of (moveFile mv srcPath destPath retries w)) = 1
          \<and> Log Info (moved_msg srcPath destPath)
              \<notin> set (effects_of (moveFile mv srcPath destPath retries w))))"
  using moveFile_settlement [of mv srcPath destPath retries w]
    moveFile_terminal [of mv srcPath destPath retries w]
  by blast

lemma fs_move_ready_world:
  "fs_move ''/in/a.txt'' ''/out/a.txt'' True ready_world =
     (Inr (), \<lparr>files = [''/out/a.txt'' \<mapsto> ''new''], in_use = {}\<rparr>)"
  by (simp add: fs_move_def ready_world_def fun_upd_twist)

lemma moveFile_ready_world:
  "moveFile fs_move ''/in/a.txt'' ''/out/a.txt'' r ready_world =
     ([Log Info (attempting_msg ''/in/a.txt'' ''/out/a.txt''),
       FsMove ''/in/a.txt'' ''/out/a.txt'' True,
       Log Info (moved_msg ''/in/a.txt'' ''/out/a.txt'')],
      \<lparr>files = [''/out/a.txt'' \<mapsto> ''new''], in_use = {}\<rparr>, Resolved ())"
  using fs_move_ready_world by (rule moveFile_moved)

lemma moveFile_empty_world:
  "moveFile fs_move ''/in/a.txt'' ''/out/a.txt'' r empty_world =
     ([Log Info (attempting_msg ''/in/a.txt'' ''/out/a.txt''),
       FsMove ''/in/a.txt'' ''/out/a.txt'' True,
       Log Error (failed_msg (enoent_error ''/in/a.txt''))], empty_world, Resolved ())"
  using fs_move_empty_world by (rule moveFile_abandoned) (simp add: enoent_error_def)

text \<open>
  C7 as stated fails: a move that succeeds and a move that fails return the same value
  to the caller, so the value returned is not the outcome.
\<close>

theorem moveFile_returns_no_outcome_counterexample:
  "settlement_of (moveFile fs_move ''/in/a.txt'' ''/out/a.txt'' 3 ready_world) = Resolved ()
   \<and> settlement_of (moveFile fs_move ''/in/a.txt'' ''/out/a.txt'' 3 empty_world) = Resolved ()
   \<and> logged_outcome (effects_of (moveFile fs_move ''/in/a.txt'' ''/out/a.txt'' 3 ready_world))
       = Some Success
   \<and> logged_outcome (effects_of (moveFile fs_move ''/in/a.txt'' ''/out/a.txt'' 3 empty_world))
       = Some (Failure (failed_msg (enoent_error ''/in/a.txt'')))"
  by (simp add: moveFile_ready_world moveFile_empty_world)

text \<open>
  The witness: the move of the waiting file ends with its success line, the move of a
  missing file with the error line of the error thrown.
\<close>

theorem moveFile_outcome_only_logged_witness:
  "last_attempt fs_move ''/in/a.txt'' ''/out/a.txt'' 3 ready_world = Inr ()
   \<and> logged_outcome (effects_of (moveFile fs_move ''/in/a.txt'' ''/out/a.txt'' 3 ready_world))
       = Some Success
   \<and> last_attempt fs_move ''/in/a.txt'' ''/out/a.txt'' 3 empty_world
       = Inl (enoent_error ''/in/a.txt'')
   \<and> logged_outcome (effects_of (moveFile fs_move ''/in/a.txt'' ''/out/a.txt'' 3 empty_world))
       = Some (Failure (failed_msg (enoent_error ''/in/a.txt'')))
   \<and> settlement_of (moveFile fs_move ''/in/a.txt'' ''/out/a.txt'' 3 empty_world) = Resolved ()"
proof -
  have moved: "last_attempt fs_move ''/in/a.txt'' ''/out/a.txt'' 3 ready_world = Inr ()"
    by (simp add: last_attempt_def moveFile_ready_world fs_move_ready_world)
  have threw: "last_attempt fs_move ''/in/a.txt'' ''/out/a.txt'' 3 empty_world
      = Inl (enoent_error ''/in/a.txt'')"
    by (simp add: last_attempt_def moveFile_empty_world fs_move_empty_world)
  from moved moveFile_outcome_only_logged
         [where mv = fs_move and srcPath = "''/in/a.txt''" and destPath = "''/out/a.txt''"
            and retries = 3 and w = ready_world]
  have success: "logged_outcome (effects_of (moveFile fs_move ''/in/a.txt'' ''/out/a.txt'' 3 ready_world))
      = Some Success"
    by auto
  from threw moveFile_outcome_only_logged
         [where mv = fs_move and srcPath = "''/in/a.txt''" and destPath = "''/out/a.txt''"
            and retries = 3 and w = empty_world]
  have failure: "logged_outcome (effects_of (moveFile fs_move ''/in/a.txt'' ''/out/a.txt'' 3 empty_world))
        = Some (Failure (failed_msg (enoent_error ''/in/a.txt'')))"
    and "settlement_of (moveFile fs_move ''/in/a.txt'' ''/out/a.txt'' 3 empty_world) = Resolved ()"
    by auto
  with moved threw success show ?thesis by blast
qed

text \<open>
  With the overwrite option on, which is how \<^verbatim>\<open>moveFile\<close> always calls it, the reference
  primitive throws \<^verbatim>\<open>ENOENT\<close> or \<^verbatim>\<open>EBUSY\<close> and nothing else.
\<close>

lemma fs_move_overwrite_errors:
  "fs_move s d True w = (Inl e, w') \<Longrightarrow> e = enoent_error s \<or> e = ebusy_error s d"
  by (auto simp add: fs_move_def split: option.splits if_splits)

lemma failed_msg_dest_exists [simp]:
  "failed_msg (enoent_error s) \<noteq> failed_msg dest_exists_error"
  "failed_msg (ebusy_error s d) \<noteq> failed_msg dest_exists_error"
  "failed_msg dest_exists_error \<noteq> failed_msg (enoent_error s)"
  "failed_msg dest_exists_error \<noteq> failed_msg (ebusy_error s d)"
  by (simp_all add: failed_msg_def enoent_error_def ebusy_error_def dest_exists_error_def)

lemma moveFile_never_dest_exists:
  "Log Error (failed_msg dest_exists_error) \<notin> set (effects_of (moveFile fs_move s d r w))"
proof (induction "fs_move" s d r w rule: moveFile.induct)
  case (1 s d r w)
  show ?case
  proof (cases rule: moveFile_cases [where mv = fs_move and s = s and d = d and w = w and r = r])
    case (moved u w')
    then show ?thesis by (simp add: moveFile_moved)
  next
    case (retry e w')
    note IH = "1.hyps" [of "Inl e" w' e, OF retry(1) [symmetric] refl conjI [OF retry(2) retry(3)]]
    have step: "moveFile fs_move s d r w =
        ([Log Info (attempting_msg s d), FsMove s d True, Log Warn (retrying_msg r), Sleep 1000]
           @ effects_of (moveFile fs_move s d (r - 1) w'),
         world_of (moveFile fs_move s d (r - 1) w'),
         settlement_of (moveFile fs_move s d (r - 1) w'))"
      using retry by (simp add: moveFile_retry)
    from IH show ?thesis unfolding step by simp
  next
    case (abandoned e w')
    then have step: "moveFile fs_move s d r w =
        ([Log Info (attempting_msg s d), FsMove s d True, Log Error (failed_msg e)], w', Resolved ())"
      by (simp add: moveFile_abandoned)
    from fs_move_overwrite_errors [OF abandoned(1)] show ?thesis
      unfolding step by auto
  qed
qed

text \<open>Every attempt of a run is the same call: source, destination, overwrite on.\<close>

lemma moveFile_attempts_overwrite:
  "set (filter is_attempt (effects_of (moveFile mv s d r w))) = {FsMove s d True}"
proof (induction mv s d r w rule: moveFile.induct)
  case (1 mv s d r w)
  show ?case
  proof (cases rule: moveFile_cases [where mv = mv and s = s and d = d and w = w and r = r])
    case (moved u w')
    then show ?thesis by (simp add: moveFile_moved)
  next
    case (retry e w')
    note IH = "1.IH" [of "Inl e" w' e, OF retry(1) [symmetric] refl conjI [OF retry(2) retry(3)]]
    have step: "moveFile mv s d r w =
        ([Log Info (attempting_msg s d), FsMove s d True, Log Warn (retrying_msg r), Sleep 1000]
           @ effects_of (moveFile mv s d (r - 1) w'),
         world_of (moveFile mv s d (r - 1) w'),
         settlement_of (moveFile mv s d (r - 1) w'))"
      using retry by (simp add: moveFile_retry)
    from IH show ?thesis unfolding step by simp
  next
    case (abandoned e w')
    then show ?thesis by (simp add: moveFile_abandoned)
  qed
qed

text \<open>
  A run that ends with success made one move: every attempt but the last threw a busy
  error, and the last attempt succeeded.
\<close>

lemma moveFile_success_one_move:
  "logged_outcome (effects_of (moveFile mv s d r w)) = Some Success \<Longrightarrow>
     list_all is_busy
       (butlast (attempt_outcomes mv s d (attempts (effects_of (moveFile mv s d r w))) w))
   \<and> last (attempt_outcomes mv s d (attempts (effects_of (moveFile mv s d r w))) w) = Inr ()
   \<and> world_of (moveFile mv s d r w)
       = world_after_attempts mv s d (attempts (effects_of (moveFile mv s d r w))) w"
proof (induction mv s d r w rule: moveFile.induct)
  case (1 mv s d r w)
  show ?case
  proof (cases rule: moveFile_cases [where mv = mv and s = s and d = d and w = w and r = r])
    case (moved u w')
    then show ?thesis by (simp add: moveFile_moved)
  next
    case (retry e w')
    have step: "moveFile mv s d r w =
        ([Log Info (attempting_msg s d), FsMove s d True, Log Warn (retrying_msg r), Sleep 1000]
           @ effects_of (moveFile mv s d (r - 1) w'),
         world_of (moveFile mv s d (r - 1) w'),
         settlement_of (moveFile mv s d (r - 1) w'))"
      using retry by (simp add: moveFile_retry)
    have ne: "effects_of (moveFile mv s d (r - 1) w') \<noteq> []"
      by (rule moveFile_effects_nonempty)
    with "1.prems" have "logged_outcome (effects_of (moveFile mv s d (r - 1) w')) = Some Success"
      unfolding step by simp
    note IH = "1.IH" [of "Inl e" w' e, OF retry(1) [symmetric] refl conjI [OF retry(2) retry(3)] this]
    have "attempt_outcomes mv s d (attempts (effects_of (moveFile mv s d (r - 1) w'))) w' \<noteq> []"
      using moveFile_attempts_pos by (rule attempt_outcomes_nonempty)
    with IH retry show ?thesis
      unfolding step by simp
  next
    case (abandoned e w')
    with "1.prems" show ?thesis by (simp add: moveFile_abandoned)
  qed
qed

text \<open>
  C4. In the reference world, when the destination names an existing file (another one
  than the source) and neither file is held open, the run of \<^verbatim>\<open>moveFile\<close> is one attempt
  that succeeds: afterwards the destination holds the content of the source, the old
  content is gone, and the source path is free. No run on any reference world logs the
  error that the primitive throws for an existing destination. And with every
  primitive, each attempt of a run passes \<^verbatim>\<open>overwrite: true\<close>, and in a run that ends
  with success exactly one attempt, the last, is a move that took effect.
\<close>

theorem moveFile_overwrites_destination:
  assumes "files w srcPath = Some content"
    and "files w destPath = Some old"
    and "srcPath \<noteq> destPath"
    and "srcPath \<notin> in_use w"
    and "destPath \<notin> in_use w"
  shows "moveFile fs_move srcPath destPath retries w =
           ([Log Info (attempting_msg srcPath destPath), FsMove srcPath destPath True,
             Log Info (moved_msg srcPath destPath)],
            w\<lparr>files := ((files w)(srcPath := None))(destPath \<mapsto> content)\<rparr>, Resolved ())
       \<and> files (world_of (moveFile fs_move srcPath destPath retries w)) destPath = Some content
       \<and> files (world_of (moveFile fs_move srcPath destPath retries w)) srcPath = None
       \<and> attempts (effects_of (moveFile fs_move srcPath destPath retries w)) = 1
       \<and> Log Error (failed_msg dest_exists_error)
            \<notin> set (effects_of (moveFile fs_move srcPath' destPath' retries' w'))
       \<and> set (filter is_attempt (effects_of (moveFile mv srcPath' destPath' retries' w'')))
            = {FsMove srcPath' destPath' True}
       \<and> (logged_outcome (effects_of (moveFile mv srcPath' destPath' retries' w'')) = Some Success
            \<longrightarrow>
              list_all is_busy
                (butlast (attempt_outcomes mv srcPath' destPath'
                   (attempts (effects_of (moveFile mv srcPath' destPath' retries' w''))) w''))
            \<and> last (attempt_outcomes mv srcPath' destPath'
                   (attempts (effects_of (moveFile mv srcPath' destPath' retries' w''))) w'')
                = Inr ())"
proof -
  from assms have "fs_move srcPath destPath True w =
      (Inr (), w\<lparr>files := ((files w)(srcPath := None))(destPath \<mapsto> content)\<rparr>)"
    by (simp add: fs_move_def)
  then have "moveFile fs_move srcPath destPath retries w =
           ([Log Info (attempting_msg srcPath destPath), FsMove srcPath destPath True,
             Log Info (moved_msg srcPath destPath)],
            w\<lparr>files := ((files w)(srcPath := None))(destPath \<mapsto> content)\<rparr>, Resolved ())"
    by (rule moveFile_moved)
  with assms(3) moveFile_never_dest_exists [of srcPath' destPath' retries' w']
    moveFile_attempts_overwrite [of mv srcPath' destPath' retries' w'']
    moveFile_success_one_move [of mv srcPath' destPath' retries' w'']
  show ?thesis by simp
qed

text \<open>The witness: the older file in the destination directory is replaced.\<close>

theorem moveFile_overwrites_destination_witness:
  "files ready_world ''/in/a.txt'' = Some ''new''
   \<and> files ready_world ''/out/a.txt'' = Some ''old''
   \<and> ''/in/a.txt'' \<noteq> ''/out/a.txt''
   \<and> ''/in/a.txt'' \<notin> in_use ready_world
   \<and> ''/out/a.txt'' \<notin> in_use ready_world
   \<and> files (world_of (moveFile fs_move ''/in/a.txt'' ''/out/a.txt'' 3 ready_world)) ''/out/a.txt''
       = Some ''new''
   \<and> files (world_of (moveFile fs_move ''/in/a.txt'' ''/out/a.txt'' 3 ready_world)) ''/in/a.txt''
       = None
   \<and> attempts (effects_of (moveFile fs_move ''/in/a.txt'' ''/out/a.txt'' 3 ready_world)) = 1
   \<and> Log Error (failed_msg dest_exists_error)
        \<notin> set (effects_of (moveFile fs_move ''/in/a.txt'' ''/out/a.txt'' 3 busy_world))
   \<and> set (filter is_attempt (effects_of (moveFile fs_move ''/in/a.txt'' ''/out/a.txt'' 3 busy_world)))
        = {FsMove ''/in/a.txt'' ''/out/a.txt'' True}"
proof -
  have h: "files ready_world ''/in/a.txt'' = Some ''new''"
    "files ready_world ''/out/a.txt'' = Some ''old''"
    "''/in/a.txt'' \<noteq> ''/out/a.txt''"
    "''/in/a.txt'' \<notin> in_use ready_world"
    "''/out/a.txt'' \<notin> in_use ready_world"
    by (simp_all add: ready_world_def)
  from moveFile_overwrites_destination
         [where w = ready_world and retries = 3 and srcPath' = "''/in/a.txt''"
            and destPath' = "''/out/a.txt''" and retries' = 3 and w' = busy_world
            and mv = fs_move and w'' = busy_world, OF h] h
  show ?thesis by blast
qed

section \<open>Properties of the paths\<close>

lemma path_basename_no_slash: "CHR ''/'' \<notin> set (path_basename p)"
  by (auto simp add: path_basename_def dest: set_takeWhileD)

lemma split_path_nonempty [simp]: "split_path p \<noteq> []"
  by (cases p) simp_all

lemma split_path_slash: "split_path (a @ CHR ''/'' # b) = split_path a @ split_path b"
  by (induction a) simp_all

lemma split_path_segment: "CHR ''/'' \<notin> set n \<Longrightarrow> split_path n = [n]"
  by (induction n) auto

lemma normalizeString_last_segment:
  assumes "CHR ''/'' \<notin> set n" and "n \<noteq> []" and "n \<noteq> ''.''" and "n \<noteq> ''..''"
  shows "normalizeString (d @ CHR ''/'' # n) allow = normalizeString d allow @ [n]"
  using assms
  by (simp add: normalizeString_def split_path_slash split_path_segment normalize_step_def)

lemma join_with_slash_snoc:
  "join_with_slash (segs @ [n]) = (if segs = [] then n else join_with_slash segs @ ''/'' @ n)"
  by (induction segs rule: join_with_slash.induct) simp_all

lemma path_basename_after_slash:
  assumes "CHR ''/'' \<notin> set n" and "n \<noteq> []"
  shows "path_basename (x @ ''/'' @ n) = n"
proof -
  from assms have hd: "hd (rev n) \<noteq> CHR ''/''"
    by (metis hd_rev last_in_set)
  from assms have "rev n \<noteq> []" by simp
  with hd have "dropWhile (\<lambda>c. c = CHR ''/'') (rev n @ CHR ''/'' # rev x) = rev n @ CHR ''/'' # rev x"
    by (cases "rev n") simp_all
  moreover from assms have "takeWhile (\<lambda>c. c \<noteq> CHR ''/'') (rev n @ CHR ''/'' # rev x) = rev n"
    by (subst takeWhile_append2) auto
  ultimately show ?thesis by (simp add: path_basename_def)
qed

lemma path_basename_segment:
  assumes "CHR ''/'' \<notin> set n" and "n \<noteq> []"
  shows "path_basename n = n"
proof -
  from assms have hd: "hd (rev n) \<noteq> CHR ''/''"
    by (metis hd_rev last_in_set)
  from assms have "rev n \<noteq> []" by simp
  with hd have "dropWhile (\<lambda>c. c = CHR ''/'') (rev n) = rev n"
    by (cases "rev n") simp_all
  moreover from assms have "takeWhile (\<lambda>c. c \<noteq> CHR ''/'') (rev n) = rev n"
    by (auto simp add: takeWhile_eq_all_conv)
  ultimately show ?thesis by (simp only: path_basename_def rev_rev_ident)
qed

lemma path_join_file_name:
  assumes "destDir \<noteq> []" and "CHR ''/'' \<notin> set n" and "n \<noteq> []" and "n \<noteq> ''.''" and "n \<noteq> ''..''"
  shows "path_join [destDir, n] =
           (if isAbsolute destDir then ''/'' else [])
             @ join_with_slash (normalizeString destDir (\<not> isAbsolute destDir) @ [n])"
proof -
  let ?joined = "destDir @ ''/'' @ n"
  from assms have abs: "isAbsolute ?joined = isAbsolute destDir"
    by (simp add: isAbsolute_def)
  from assms have last: "last ?joined \<noteq> CHR ''/''"
    by (metis append_is_Nil_conv last_appendR last_in_set list.distinct(1))
  have ne: "join_with_slash (normalizeString destDir (\<not> isAbsolute destDir) @ [n]) \<noteq> []"
    using assms by (simp add: join_with_slash_snoc)
  from assms have "path_join [destDir, n] = path_normalize ?joined"
    by (simp add: path_join_def)
  also have "\<dots> = (if isAbsolute destDir then ''/'' else [])
             @ join_with_slash (normalizeString destDir (\<not> isAbsolute destDir) @ [n])"
    using last ne abs assms
    by (simp add: path_normalize_def normalizeString_last_segment Let_def del: append_assoc)
  finally show ?thesis .
qed

lemma path_basename_path_join:
  assumes "destDir \<noteq> []" and "CHR ''/'' \<notin> set n" and "n \<noteq> []" and "n \<noteq> ''.''" and "n \<noteq> ''..''"
  shows "path_basename (path_join [destDir, n]) = n"
proof (cases "normalizeString destDir (\<not> isAbsolute destDir) = []")
  case True
  with assms show ?thesis
    using path_basename_after_slash [of n "[]"] path_basename_segment [of n]
    by (simp add: path_join_file_name)
next
  case False
  with assms show ?thesis
    using path_basename_after_slash
            [of n "(if isAbsolute destDir then ''/'' else [])
                     @ join_with_slash (normalizeString destDir (\<not> isAbsolute destDir))"]
    by (simp add: path_join_file_name join_with_slash_snoc)
qed

section \<open>Properties of the watcher's handlers\<close>

text \<open>
  C10. For a detected file the \<^verbatim>\<open>add\<close> handler calls \<^verbatim>\<open>moveFile\<close> once, with the detected path
  as source and, as destination, the destination directory joined with the base name of
  the detected path. For a destination directory that is not the empty string and a
  base name that is a file name (not empty, not \<^verbatim>\<open>.\<close>, not \<^verbatim>\<open>..\<close>), the destination path
  keeps the file name, and it is the normalized destination directory followed by the
  file name as its one further segment: nothing of the directories of the detected
  path is left, so files of subdirectories land in the one destination directory.
\<close>

theorem on_add_destination:
  assumes "destDir \<noteq> []"
    and "path_basename filePath \<noteq> []"
    and "path_basename filePath \<noteq> ''.''"
    and "path_basename filePath \<noteq> ''..''"
  shows "dispatched (on_add destDir filePath p) =
           dispatched p @ [(filePath, path_join [destDir, path_basename filePath], 3)]
       \<and> path_basename (path_join [destDir, path_basename filePath]) = path_basename filePath
       \<and> path_join [destDir, path_basename filePath] =
           (if isAbsolute destDir then ''/'' else [])
             @ join_with_slash
                 (normalizeString destDir (\<not> isAbsolute destDir) @ [path_basename filePath])"
proof -
  note name = assms(2-4) path_basename_no_slash [of filePath]
  have "dispatched (on_add destDir filePath p) =
          dispatched p @ [(filePath, path_join [destDir, path_basename filePath], 3)]"
    by (simp add: on_add_def Let_def)
  moreover have "path_basename (path_join [destDir, path_basename filePath]) = path_basename filePath"
    using assms(1) name by (simp add: path_basename_path_join)
  moreover have "path_join [destDir, path_basename filePath] =
           (if isAbsolute destDir then ''/'' else [])
             @ join_with_slash
                 (normalizeString destDir (\<not> isAbsolute destDir) @ [path_basename filePath])"
    using assms(1) name by (simp add: path_join_file_name)
  ultimately show ?thesis by blast
qed

text \<open>The witness: a file two directories below the watched one.\<close>

theorem on_add_destination_witness:
  "''/out/'' \<noteq> []
   \<and> path_basename ''/in/sub/dir/a.txt'' = ''a.txt''
   \<and> dispatched (on_add ''/out/'' ''/in/sub/dir/a.txt'' fresh_process) =
        [(''/in/sub/dir/a.txt'', ''/out/a.txt'', 3)]
   \<and> path_basename ''/out/a.txt'' = ''a.txt''"
proof -
  have name: "path_basename ''/in/sub/dir/a.txt'' = ''a.txt''"
    by (simp add: path_basename_def)
  have dest: "path_join [''/out/'', ''a.txt''] = ''/out/a.txt''"
    by (simp add: path_join_def path_normalize_def normalizeString_def normalize_step_def
        isAbsolute_def)
  have none: "dispatched fresh_process = []"
    by (simp add: fresh_process_def)
  have "''/out/'' \<noteq> []" "path_basename ''/in/sub/dir/a.txt'' \<noteq> []"
    "path_basename ''/in/sub/dir/a.txt'' \<noteq> ''.''" "path_basename ''/in/sub/dir/a.txt'' \<noteq> ''..''"
    by (simp_all add: name)
  from on_add_destination [of "''/out/''" "''/in/sub/dir/a.txt''" fresh_process, OF this]
  have "dispatched (on_add ''/out/'' ''/in/sub/dir/a.txt'' fresh_process) =
          dispatched fresh_process
            @ [(''/in/sub/dir/a.txt'', path_join [''/out/'', path_basename ''/in/sub/dir/a.txt''], 3)]"
    and "path_basename (path_join [''/out/'', path_basename ''/in/sub/dir/a.txt''])
          = path_basename ''/in/sub/dir/a.txt''"
    by blast+
  then show ?thesis by (simp add: name dest none)
qed

text \<open>
  C6 as stated fails: with a watch target that is not among the readable directories,
  \<^verbatim>\<open>startWatching\<close> sets the watcher up and logs that it watches, and the process has not
  exited.
\<close>

theorem startWatching_missing_directory_counterexample:
  "''./src'' \<notin> readable fresh_process
   \<and> exited (startWatching ''./src'' ''./dest'' fresh_process) = None
   \<and> watching (startWatching ''./src'' ''./dest'' fresh_process) =
        [\<lparr>target = ''./src'', options = startWatching_options, handler_destDir = ''./dest''\<rparr>]
   \<and> logged (startWatching ''./src'' ''./dest'' fresh_process) =
        [(Info, ''Watching directory: ./src'')]"
  by (simp add: startWatching_def fresh_process_def)

text \<open>
  C6, as amended. \<^verbatim>\<open>startWatching\<close> makes no check of the watch target: it leaves the exit
  state of the process as it is, sets the watcher up with its options and handlers and
  logs one info line, and what it does is the same whatever directories exist and can
  be read.
\<close>

theorem startWatching_makes_no_check:
  "exited (startWatching srcDir destDir p) = exited p
   \<and> watching (startWatching srcDir destDir p) =
        watching p @
          [\<lparr>target = srcDir, options = startWatching_options, handler_destDir = destDir\<rparr>]
   \<and> logged (startWatching srcDir destDir p) =
        logged p @ [(Info, ''Watching directory: '' @ srcDir)]
   \<and> startWatching srcDir destDir (p\<lparr>readable := dirs\<rparr>) =
        (startWatching srcDir destDir p)\<lparr>readable := dirs\<rparr>"
  by (simp add: startWatching_def)

text \<open>The witness: the same start with the directory missing and with it present.\<close>

theorem startWatching_makes_no_check_witness:
  "exited (startWatching ''./src'' ''./dest'' fresh_process) = exited fresh_process
   \<and> startWatching ''./src'' ''./dest'' (fresh_process\<lparr>readable := {''./src''}\<rparr>) =
        (startWatching ''./src'' ''./dest'' fresh_process)\<lparr>readable := {''./src''}\<rparr>"
  using startWatching_makes_no_check [of "''./src''" "''./dest''" fresh_process "{''./src''}"]
  by blast

lemma deliver_exited [simp]: "exited (deliver wt p ev) = exited p"
  by (simp add: deliver_def on_add_def on_error_def Let_def split: watcher_event.splits)

lemma deliver_watching [simp]: "watching (deliver wt p ev) = watching p"
  by (simp add: deliver_def on_add_def on_error_def Let_def split: watcher_event.splits)

lemma run_events_exited [simp]: "exited (run_events wt evs p) = exited p"
  unfolding run_events_def by (induction evs arbitrary: p) simp_all

lemma run_events_watching [simp]: "watching (run_events wt evs p) = watching p"
  unfolding run_events_def by (induction evs arbitrary: p) simp_all

lemma run_events_Cons: "run_events wt (ev # evs) p = run_events wt evs (deliver wt p ev)"
  by (simp add: run_events_def)

lemma deliver_logged_update:
  "deliver wt (p\<lparr>logged := l\<rparr>) ev =
     (deliver wt p ev)\<lparr>logged := logged (deliver wt (p\<lparr>logged := l\<rparr>) ev)\<rparr>"
  by (cases ev) (simp_all add: deliver_def on_add_def on_error_def Let_def)

lemma run_events_logged_update:
  "\<exists>l'. run_events wt evs (p\<lparr>logged := l\<rparr>) = (run_events wt evs p)\<lparr>logged := l'\<rparr>"
proof (induction evs arbitrary: p l)
  case Nil
  then show ?case by (auto simp add: run_events_def)
next
  case (Cons ev evs)
  obtain l1 where "deliver wt (p\<lparr>logged := l\<rparr>) ev = (deliver wt p ev)\<lparr>logged := l1\<rparr>"
    using deliver_logged_update by blast
  with Cons.IH [where p = "deliver wt p ev" and l = l1] show ?case
    by (simp add: run_events_Cons)
qed

text \<open>
  C8. An \<^verbatim>\<open>error\<close> event of the watcher, reaching a running process, adds one error line
  to the log and changes nothing else: the process has not exited, the watcher is still
  set up, and the events that follow are handled as they would be without the error,
  dispatching the same moves.
\<close>

theorem watcher_error_only_logged:
  assumes "exited p = None" and "wt \<in> set (watching p)"
  shows "run_events wt (WatchError error # evs) p =
           run_events wt evs (p\<lparr>logged := logged p @ [(Error, ''Watcher error: '' @ message error)]\<rparr>)
       \<and> logged (run_events wt [WatchError error] p) =
           logged p @ [(Error, ''Watcher error: '' @ message error)]
       \<and> exited (run_events wt (WatchError error # evs) p) = None
       \<and> watching (run_events wt (WatchError error # evs) p) = watching p
       \<and> dispatched (run_events wt (WatchError error # evs) p) = dispatched (run_events wt evs p)"
proof -
  from assms have step: "deliver wt p (WatchError error) =
      p\<lparr>logged := logged p @ [(Error, ''Watcher error: '' @ message error)]\<rparr>"
    by (simp add: deliver_def on_error_def)
  obtain l' where "run_events wt evs (p\<lparr>logged := logged p @ [(Error, ''Watcher error: '' @ message error)]\<rparr>)
      = (run_events wt evs p)\<lparr>logged := l'\<rparr>"
    using run_events_logged_update by blast
  with step assms show ?thesis
    by (simp add: run_events_Cons) (simp add: run_events_def)
qed

lemma path_join_example: "path_join [''/out'', ''a.txt''] = ''/out/a.txt''"
  by (simp add: path_join_def path_normalize_def normalizeString_def normalize_step_def
      isAbsolute_def)

lemma path_basename_example: "path_basename ''/in/a.txt'' = ''a.txt''"
  by (simp add: path_basename_def)

text \<open>
  The witness: the watched directory vanishes, a poll fails, and the file that appears
  afterwards is moved all the same.
\<close>

theorem watcher_error_only_logged_witness:
  "exited (startWatching ''/in'' ''/out'' fresh_process) = None
   \<and> \<lparr>target = ''/in'', options = startWatching_options, handler_destDir = ''/out''\<rparr>
        \<in> set (watching (startWatching ''/in'' ''/out'' fresh_process))
   \<and> logged (run_events
               \<lparr>target = ''/in'', options = startWatching_options, handler_destDir = ''/out''\<rparr>
               [WatchError vanished_error] (startWatching ''/in'' ''/out'' fresh_process)) =
        [(Info, ''Watching directory: /in''),
         (Error, ''Watcher error: ENOENT: no such file or directory, scandir /in'')]
   \<and> dispatched (run_events
               \<lparr>target = ''/in'', options = startWatching_options, handler_destDir = ''/out''\<rparr>
               [WatchError vanished_error, Add ''/in/a.txt'']
               (startWatching ''/in'' ''/out'' fresh_process)) =
        [(''/in/a.txt'', ''/out/a.txt'', 3)]"
proof -
  let ?wt = "\<lparr>target = ''/in'', options = startWatching_options, handler_destDir = ''/out''\<rparr>"
  let ?p = "startWatching ''/in'' ''/out'' fresh_process"
  have running: "exited ?p = None" and set_up: "?wt \<in> set (watching ?p)"
    by (simp_all add: startWatching_def fresh_process_def)
  have before: "logged ?p = [(Info, ''Watching directory: /in'')]"
    by (simp add: startWatching_def fresh_process_def)
  have without: "dispatched (run_events ?wt [Add ''/in/a.txt''] ?p) = [(''/in/a.txt'', ''/out/a.txt'', 3)]"
    using running set_up
    by (simp add: run_events_def deliver_def on_add_def Let_def path_join_example
        path_basename_example)
       (simp add: startWatching_def fresh_process_def)
  from watcher_error_only_logged
         [where p = ?p and wt = ?wt and error = vanished_error and evs = "[Add ''/in/a.txt'']",
          OF running set_up]
  have "logged (run_events ?wt [WatchError vanished_error] ?p) =
          logged ?p @ [(Error, ''Watcher error: '' @ message vanished_error)]"
    and "dispatched (run_events ?wt [WatchError vanished_error, Add ''/in/a.txt''] ?p) =
          dispatched (run_events ?wt [Add ''/in/a.txt''] ?p)"
    by blast+
  with running set_up before without show ?thesis
    by (simp add: vanished_error_def)
qed

section \<open>Properties of the watch\<close>

lemma poll_loop_event:
  "(t', ev) \<in> set (poll_loop iv t seen polls) \<Longrightarrow>
   \<exists>k<length polls. t' = t + iv * (k + 1) \<and> ev \<in> set (poll_events (seen_before seen polls k) (polls ! k))"
proof (induction polls arbitrary: t seen)
  case Nil
  then show ?case by simp
next
  case (Cons r rs)
  from Cons.prems consider
    (now) "t' = t + iv" "ev \<in> set (poll_events seen r)"
    | (later) "(t', ev) \<in> set (poll_loop iv (t + iv) (seen_after seen r) rs)"
    by auto
  then show ?case
  proof cases
    case now
    then have "0 < length (r # rs) \<and> t' = t + iv * (0 + 1)
        \<and> ev \<in> set (poll_events (seen_before seen (r # rs) 0) ((r # rs) ! 0))"
      by (simp add: seen_before_def)
    then show ?thesis by blast
  next
    case later
    from Cons.IH [OF later] obtain k where k: "k < length rs"
      "t' = t + iv + iv * (k + 1)"
      "ev \<in> set (poll_events (seen_before (seen_after seen r) rs k) (rs ! k))"
      by blast
    then have "Suc k < length (r # rs) \<and> t' = t + iv * (Suc k + 1)
        \<and> ev \<in> set (poll_events (seen_before seen (r # rs) (Suc k)) ((r # rs) ! Suc k))"
      by (simp add: seen_before_def)
    then show ?thesis by blast
  qed
qed

lemma still_seen:
  assumes "\<forall>now. Listing now \<in> set polls \<longrightarrow> path \<in> set now"
  shows "path \<in> set seen \<Longrightarrow> path \<in> set (foldl seen_after seen polls)"
  using assms
proof (induction polls arbitrary: seen)
  case Nil
  then show ?case by simp
next
  case (Cons r rs)
  from Cons.prems have "path \<in> set (seen_after seen r)"
    by (cases r) (simp_all add: seen_after_def)
  with Cons show ?case by simp
qed

lemma still_seen_before:
  assumes "path \<in> set present" and "\<forall>now. Listing now \<in> set polls \<longrightarrow> path \<in> set now"
  shows "path \<in> set (seen_before present polls k)"
  unfolding seen_before_def using assms(1)
proof (rule still_seen [rotated])
  show "\<forall>now. Listing now \<in> set (take k polls) \<longrightarrow> path \<in> set now"
    using assms(2) by (auto dest: in_set_takeD)
qed

lemma watcher_events_startWatching:
  "watcher_events startWatching_options present polls = poll_loop 1000 0 present polls"
  by (simp add: watcher_events_def initial_events_def startWatching_options_def)

lemma added_paths_iff: "path \<in> set (added_paths evs) \<longleftrightarrow> Add path \<in> set evs"
  by (induction evs rule: added_paths.induct) auto

lemma poll_events_Add:
  "Add path \<in> set (poll_events seen r) \<longleftrightarrow> (\<exists>now. r = Listing now \<and> path \<in> set now \<and> path \<notin> set seen)"
  by (cases r) (auto simp add: poll_events_def)

lemma run_events_dispatched:
  "exited p = None \<Longrightarrow> wt \<in> set (watching p) \<Longrightarrow>
   dispatched (run_events wt evs p) =
     dispatched p
       @ map (\<lambda>path. (path, path_join [handler_destDir wt, path_basename path], 3)) (added_paths evs)"
proof (induction evs arbitrary: p)
  case Nil
  then show ?case by (simp add: run_events_def)
next
  case (Cons ev evs)
  have "exited (deliver wt p ev) = None" "wt \<in> set (watching (deliver wt p ev))"
    using Cons.prems by simp_all
  from Cons.IH [OF this] Cons.prems show ?case
    by (cases ev) (simp_all add: run_events_Cons deliver_def on_add_def on_error_def Let_def)
qed

lemma watch_service_dispatched:
  assumes "exited p = None"
  shows "dispatched (watch_service srcDir destDir present polls p) =
     dispatched p
       @ map (\<lambda>path. (path, path_join [destDir, path_basename path], 3))
           (added_paths (map snd (watcher_events startWatching_options present polls)))"
proof -
  let ?wt = "\<lparr>target = srcDir, options = startWatching_options, handler_destDir = destDir\<rparr>"
  let ?p = "startWatching srcDir destDir p"
  have wt: "last (watching ?p) = ?wt" and "exited ?p = None" and "?wt \<in> set (watching ?p)"
    and "dispatched ?p = dispatched p"
    using assms by (simp_all add: startWatching_def)
  then show ?thesis
    by (simp add: watch_service_def Let_def run_events_dispatched)
qed

text \<open>
  C5. \<^verbatim>\<open>startWatching\<close> asks the watcher to exclude the initial state and to poll every
  1000 ms. Under these options a file is reported only at a poll, a whole number of
  seconds after the watch began, at which it is in the listing and was not in the
  listing the watcher saw before, so it appeared after the watch began. A file that is
  present when watching begins and at every poll is never reported. The moves of the
  service are the moves of the reported files, one each, in order; so a file that is
  never reported is never moved.
\<close>

theorem watcher_skips_initial_files:
  "ignoreInitial startWatching_options \<and> usePolling startWatching_options
   \<and> interval startWatching_options = 1000
   \<and> (\<forall>t path. (t, Add path) \<in> set (watcher_events startWatching_options present polls) \<longrightarrow>
        (\<exists>k<length polls. t = 1000 * (k + 1)
           \<and> (\<exists>now. polls ! k = Listing now \<and> path \<in> set now)
           \<and> path \<notin> set (seen_before present polls k)))
   \<and> (\<forall>path. path \<in> set present \<and> (\<forall>now. Listing now \<in> set polls \<longrightarrow> path \<in> set now) \<longrightarrow>
        path \<notin> set (added_paths (map snd (watcher_events startWatching_options present polls))))
   \<and> (exited p = None \<longrightarrow>
        dispatched (watch_service srcDir destDir present polls p) =
          dispatched p
            @ map (\<lambda>path. (path, path_join [destDir, path_basename path], 3))
                (added_paths (map snd (watcher_events startWatching_options present polls))))"
proof (intro conjI allI impI)
  show "ignoreInitial startWatching_options" "usePolling startWatching_options"
    "interval startWatching_options = 1000"
    by (simp_all add: startWatching_options_def)
next
  fix t path
  assume "(t, Add path) \<in> set (watcher_events startWatching_options present polls)"
  then have "(t, Add path) \<in> set (poll_loop 1000 0 present polls)"
    by (simp add: watcher_events_startWatching)
  from poll_loop_event [OF this]
  show "\<exists>k<length polls. t = 1000 * (k + 1)
           \<and> (\<exists>now. polls ! k = Listing now \<and> path \<in> set now)
           \<and> path \<notin> set (seen_before present polls k)"
    by (auto simp add: poll_events_Add)
next
  fix path
  assume stays: "path \<in> set present \<and> (\<forall>now. Listing now \<in> set polls \<longrightarrow> path \<in> set now)"
  show "path \<notin> set (added_paths (map snd (watcher_events startWatching_options present polls)))"
  proof
    assume "path \<in> set (added_paths (map snd (watcher_events startWatching_options present polls)))"
    then obtain t where "(t, Add path) \<in> set (poll_loop 1000 0 present polls)"
      by (auto simp add: added_paths_iff watcher_events_startWatching)
    from poll_loop_event [OF this] obtain k
      where "Add path \<in> set (poll_events (seen_before present polls k) (polls ! k))"
      by blast
    then have "path \<notin> set (seen_before present polls k)"
      by (auto simp add: poll_events_Add)
    moreover from stays have "path \<in> set (seen_before present polls k)"
      by (simp add: still_seen_before)
    ultimately show False by contradiction
  qed
next
  assume "exited p = None"
  then show "dispatched (watch_service srcDir destDir present polls p) =
          dispatched p
            @ map (\<lambda>path. (path, path_join [destDir, path_basename path], 3))
                (added_paths (map snd (watcher_events startWatching_options present polls)))"
    by (rule watch_service_dispatched)
qed


text \<open>The witness: the old file is passed over, the new file is reported at the second poll and moved.\<close>

theorem watcher_skips_initial_files_witness:
  "''/in/old.txt'' \<in> set present_at_start
   \<and> watcher_events startWatching_options present_at_start two_polls = [(2000, Add ''/in/new.txt'')]
   \<and> ''/in/old.txt''
        \<notin> set (added_paths (map snd (watcher_events startWatching_options present_at_start two_polls)))
   \<and> exited fresh_process = None
   \<and> dispatched (watch_service ''/in'' ''/out'' present_at_start two_polls fresh_process) =
        [(''/in/new.txt'', ''/out/new.txt'', 3)]"
proof -
  note inst = watcher_skips_initial_files
      [where present = present_at_start and polls = two_polls and p = fresh_process
         and srcDir = "''/in''" and destDir = "''/out''"]
  have present: "''/in/old.txt'' \<in> set present_at_start"
    by (simp add: present_at_start_def)
  have stays: "\<forall>now. Listing now \<in> set two_polls \<longrightarrow> ''/in/old.txt'' \<in> set now"
    by (auto simp add: two_polls_def)
  have events: "watcher_events startWatching_options present_at_start two_polls
      = [(2000, Add ''/in/new.txt'')]"
    by (simp add: watcher_events_startWatching two_polls_def present_at_start_def
        poll_events_def seen_after_def)
  have running: "exited fresh_process = None" and none: "dispatched fresh_process = []"
    by (simp_all add: fresh_process_def)
  have dest: "path_join [''/out'', path_basename ''/in/new.txt''] = ''/out/new.txt''"
    by (simp add: path_basename_def path_join_def path_normalize_def normalizeString_def
        normalize_step_def isAbsolute_def)
  from inst present stays
  have skipped: "''/in/old.txt''
      \<notin> set (added_paths (map snd (watcher_events startWatching_options present_at_start two_polls)))"
    by blast
  from inst running
  have "dispatched (watch_service ''/in'' ''/out'' present_at_start two_polls fresh_process) =
          dispatched fresh_process
            @ map (\<lambda>path. (path, path_join [''/out'', path_basename path], 3))
                (added_paths (map snd (watcher_events startWatching_options present_at_start two_polls)))"
    by blast
  then have "dispatched (watch_service ''/in'' ''/out'' present_at_start two_polls fresh_process) =
        [(''/in/new.txt'', ''/out/new.txt'', 3)]"
    by (simp add: events none dest)
  with present events skipped running show ?thesis by blast
qed

end
